theory Spec2Isabelle
  imports Main
begin

section \<open>The Python environment of IterableWrapperIterDataPipe\<close>

text \<open>
  The class of \<^verbatim>\<open>torch/utils/data/datapipes/iter/utils.py\<close> holds a reference to an
  iterable that the caller may still hold and mutate, so the wrapped objects live in an
  explicit store. An object of the store is described by what the three protocols used
  by the class do on it: iteration (\<open>elems\<close>, read by index as the iterator of a built-in
  sequence does), \<^verbatim>\<open>copy.deepcopy\<close> (\<open>dup\<close>: \<open>None\<close> when the copy succeeds, the exception
  raised otherwise) and \<^verbatim>\<open>len\<close> (\<open>sized\<close>). The elements themselves are immutable values.
\<close>

datatype exn =
    StopIteration
  | TypeError
  | Exception string
  | Raised string
  | BadReference

text \<open>
  \<open>Raised name\<close> is any other exception class. \<open>BadReference\<close> is the fault of reading an
  address that the store does not hold; Python cannot produce such a reference, the
  constructor only keeps every function of the model total.
\<close>

type_synonym addr = nat

record 'a pyobj =
  elems :: "'a list"
  dup :: "exn option"
  sized :: bool

record 'a world =
  heap :: "'a pyobj list"
  warnings :: "string list"

definition lookup :: "'a pyobj list \<Rightarrow> addr \<Rightarrow> 'a pyobj option" where
  "lookup h a = (if a < length h then Some (h ! a) else None)"

text \<open>\<^verbatim>\<open>copy.deepcopy(x)\<close>: a new object with the same contents, or the exception of \<open>dup\<close>.\<close>

definition copy_deepcopy :: "'a pyobj list \<Rightarrow> addr \<Rightarrow> exn + (addr \<times> 'a pyobj list)" where
  "copy_deepcopy h a =
     (case lookup h a of
        None \<Rightarrow> Inl BadReference
      | Some ob \<Rightarrow>
          (case dup ob of
             Some e \<Rightarrow> Inl e
           | None \<Rightarrow> Inr (length h, h @ [ob])))"

definition deepcopy_warning :: string where
  "deepcopy_warning =
     ''The input iterable can not be deepcopied, '' @
     ''please be aware of in-place modification would affect source data.''"

section \<open>The instance\<close>

text \<open>
  A generator object made by \<^verbatim>\<open>__iter__\<close>: \<open>Created\<close> before its body has run at all,
  \<open>Running a i\<close> when suspended at the \<^verbatim>\<open>yield\<close> with the loop over the object at \<open>a\<close>
  about to read index \<open>i\<close>, \<open>Finished\<close> once it has returned or raised.
\<close>

datatype gen = Created | Running addr nat | Finished

text \<open>
  The state that \<^verbatim>\<open>__getstate__\<close> returns is the instance dictionary without the key
  \<^verbatim>\<open>iter\<close>; the instance is that record extended by the field \<open>iter\<close>.
\<close>

record state =
  iterable :: addr
  deepcopy :: bool
  state_counter :: int

record wrapper = state +
  iter :: "gen option"

definition wrapper_init :: "addr \<Rightarrow> bool \<Rightarrow> wrapper" where
  "wrapper_init src dc =
     \<lparr>iterable = src, deepcopy = dc, state_counter = 0, iter = None\<rparr>"

section \<open>\<^verbatim>\<open>__iter__\<close>\<close>

text \<open>
  Lines 29 to 41: the choice of \<^verbatim>\<open>source_data\<close>. Only \<^verbatim>\<open>TypeError\<close> is caught; any
  other exception of the copy leaves the generator.
\<close>

definition choose_source :: "wrapper \<Rightarrow> 'a world \<Rightarrow> exn + (addr \<times> 'a world)" where
  "choose_source s w =
     (if deepcopy s then
        (case copy_deepcopy (heap w) (iterable s) of
           Inr (a, h) \<Rightarrow> Inr (a, w\<lparr>heap := h\<rparr>)
         | Inl e \<Rightarrow>
             (if e = TypeError
              then Inr (iterable s, w\<lparr>warnings := warnings w @ [deepcopy_warning]\<rparr>)
              else Inl e))
      else Inr (iterable s, w))"

text \<open>Lines 42 and 43: one turn of \<^verbatim>\<open>for data in source_data: yield data\<close>.\<close>

definition for_loop :: "'a world \<Rightarrow> addr \<Rightarrow> nat \<Rightarrow> (exn + 'a) \<times> gen \<times> 'a world" where
  "for_loop w a i =
     (case lookup (heap w) a of
        None \<Rightarrow> (Inl BadReference, Finished, w)
      | Some ob \<Rightarrow>
          (if i < length (elems ob)
           then (Inr (elems ob ! i), Running a (Suc i), w)
           else (Inl StopIteration, Finished, w)))"

text \<open>
  \<^verbatim>\<open>next(g)\<close> on a generator of \<^verbatim>\<open>__iter__\<close>. The body reads \<^verbatim>\<open>self\<close> when it first runs,
  so the instance is an argument of the step and not of the creation.
\<close>

fun gen_next :: "wrapper \<Rightarrow> 'a world \<Rightarrow> gen \<Rightarrow> (exn + 'a) \<times> gen \<times> 'a world" where
  "gen_next s w Created =
     (case choose_source s w of
        Inl e \<Rightarrow> (Inl e, Finished, w)
      | Inr (a, w') \<Rightarrow> for_loop w' a 0)"
| "gen_next s w (Running a i) = for_loop w a i"
| "gen_next s w Finished = (Inl StopIteration, Finished, w)"

definition wrapper_iter :: "wrapper \<Rightarrow> gen" where
  "wrapper_iter s = Created"

section \<open>\<^verbatim>\<open>__next__\<close>, \<^verbatim>\<open>save_snapshot\<close>, \<^verbatim>\<open>restore_snapshot\<close>\<close>

definition wrapper_next :: "wrapper \<times> 'a world \<Rightarrow> (exn + 'a) \<times> wrapper \<times> 'a world" where
  "wrapper_next = (\<lambda>(s, w).
     let g = (case iter s of None \<Rightarrow> wrapper_iter s | Some g \<Rightarrow> g);
         s1 = s\<lparr>iter := Some g\<rparr>;
         s2 = s1\<lparr>state_counter := state_counter s1 + 1\<rparr>
     in (case gen_next s2 w g of
           (r, g', w') \<Rightarrow> (r, s2\<lparr>iter := Some g'\<rparr>, w')))"

definition save_snapshot :: "wrapper \<times> 'a world \<Rightarrow> int \<times> wrapper \<times> 'a world" where
  "save_snapshot = (\<lambda>(s, w). (state_counter s, s, w))"

text \<open>
  Lines 57 to 59. Each turn of the loop raises or leaves the counter one higher, so the
  distance to the target is a measure.
\<close>

function restore_loop ::
  "int \<Rightarrow> wrapper \<times> 'a world \<Rightarrow> (exn + unit) \<times> wrapper \<times> 'a world" where
  "restore_loop target_count (s, w) =
     (if state_counter s < target_count then
        (case wrapper_next (s, w) of
           (Inl e, s', w') \<Rightarrow> (Inl e, s', w')
         | (Inr x, s', w') \<Rightarrow> restore_loop target_count (s', w'))
      else (Inr (), s, w))"
  by pat_completeness auto
termination
  by (relation "measure (\<lambda>(t, s, w). nat (t - state_counter s))")
     (auto simp: wrapper_next_def Let_def split: prod.splits)

definition restore_snapshot ::
  "int option \<Rightarrow> wrapper \<times> 'a world \<Rightarrow> (exn + unit) \<times> wrapper \<times> 'a world" where
  "restore_snapshot target_count = (\<lambda>(s, w).
     let t = (case target_count of None \<Rightarrow> state_counter s | Some t \<Rightarrow> t)
     in restore_loop t (s\<lparr>state_counter := 0\<rparr>, w))"

section \<open>\<^verbatim>\<open>__getstate__\<close>, \<^verbatim>\<open>__setstate__\<close>, \<^verbatim>\<open>__len__\<close>\<close>

definition wrapper_getstate :: "wrapper \<Rightarrow> exn + state" where
  "wrapper_getstate s =
     (if iter s \<noteq> None then Inl (Exception '''')
      else Inr \<lparr>iterable = iterable s, deepcopy = deepcopy s,
                state_counter = state_counter s\<rparr>)"

definition wrapper_setstate :: "state \<Rightarrow> wrapper" where
  "wrapper_setstate st =
     (let s = \<lparr>iterable = iterable st, deepcopy = deepcopy st,
               state_counter = state_counter st, iter = None\<rparr>
      in s\<lparr>iter := Some (wrapper_iter s)\<rparr>)"

definition wrapper_len :: "wrapper \<times> 'a world \<Rightarrow> exn + nat" where
  "wrapper_len = (\<lambda>(s, w).
     (case lookup (heap w) (iterable s) of
        None \<Rightarrow> Inl BadReference
      | Some ob \<Rightarrow> (if sized ob then Inr (length (elems ob)) else Inl TypeError)))"

section \<open>The caller\<close>

text \<open>
  The caller holds the wrapped object too and may change its contents in place, for
  instance by \<^verbatim>\<open>source[:] = xs\<close>.
\<close>

definition caller_assign :: "addr \<Rightarrow> 'a list \<Rightarrow> 'a world \<Rightarrow> 'a world" where
  "caller_assign a xs w =
     (if a < length (heap w)
      then w\<lparr>heap := (heap w)[a := (heap w ! a)\<lparr>elems := xs\<rparr>]\<rparr>
      else w)"

text \<open>
  A traversal of one generator by the caller: before each \<^verbatim>\<open>next\<close> the caller may
  assign new contents to the wrapped object (\<open>Some xs\<close>) or leave it alone (\<open>None\<close>).
  The traversal ends at the first exception, which is returned with the elements
  yielded so far, or when the schedule is used up (then no exception is returned).
\<close>

fun traverse ::
  "wrapper \<Rightarrow> 'a list option list \<Rightarrow> gen \<Rightarrow> 'a world \<Rightarrow> 'a list \<times> exn option \<times> gen \<times> 'a world" where
  "traverse s [] g w = ([], None, g, w)"
| "traverse s (m # ms) g w =
     (let w1 = (case m of None \<Rightarrow> w | Some xs \<Rightarrow> caller_assign (iterable s) xs w)
      in (case gen_next s w1 g of
            (Inl e, g', w') \<Rightarrow> ([], Some e, g', w')
          | (Inr x, g', w') \<Rightarrow>
              (case traverse s ms g' w' of
                 (xs, r, g'', w'') \<Rightarrow> (x # xs, r, g'', w''))))"

text \<open>
  \<open>advance n\<close> is \<open>n\<close> calls of \<^verbatim>\<open>__next__\<close> in a row, stopping at the first one that
  raises; it returns the elements produced.
\<close>

fun advance :: "nat \<Rightarrow> wrapper \<times> 'a world \<Rightarrow> (exn + 'a list) \<times> wrapper \<times> 'a world" where
  "advance 0 sw = (Inr [], sw)"
| "advance (Suc n) sw =
     (case wrapper_next sw of
        (Inl e, sw') \<Rightarrow> (Inl e, sw')
      | (Inr x, sw') \<Rightarrow>
          (case advance n sw' of
             (Inl e, sw'') \<Rightarrow> (Inl e, sw'')
           | (Inr xs, sw'') \<Rightarrow> (Inr (x # xs), sw'')))"

definition discard :: "exn + 'b \<Rightarrow> exn + unit" where
  "discard r = (case r of Inl e \<Rightarrow> Inl e | Inr x \<Rightarrow> Inr ())"

text \<open>
  The operations a caller can invoke on an instance, and the instance and store each
  leaves behind, whether it returned or raised.
\<close>

datatype op =
    Iter
  | Next
  | Save_snapshot
  | Restore_snapshot "int option"
  | Getstate
  | Setstate state
  | Len

fun exec :: "op \<Rightarrow> wrapper \<times> 'a world \<Rightarrow> wrapper \<times> 'a world" where
  "exec Iter sw = sw"
| "exec Next sw = snd (wrapper_next sw)"
| "exec Save_snapshot sw = snd (save_snapshot sw)"
| "exec (Restore_snapshot t) sw = snd (restore_snapshot t sw)"
| "exec Getstate sw = sw"
| "exec (Setstate st) (s, w) = (wrapper_setstate st, w)"
| "exec Len sw = sw"

definition run :: "op list \<Rightarrow> wrapper \<times> 'a world \<Rightarrow> wrapper \<times> 'a world" where
  "run ops sw = fold exec ops sw"


section \<open>Facts about the store and the generator\<close>

declare restore_loop.simps [simp del]

lemma lookup_append_old: "lookup h a = Some ob \<Longrightarrow> lookup (h @ xs) a = Some ob"
  by (auto simp: lookup_def nth_append split: if_splits)

lemma lookup_append_new: "lookup (h @ [ob]) (length h) = Some ob"
  by (simp add: lookup_def)

lemma for_loop_yield:
  "lookup (heap w) a = Some ob \<Longrightarrow> i < length (elems ob) \<Longrightarrow>
   for_loop w a i = (Inr (elems ob ! i), Running a (Suc i), w)"
  by (simp add: for_loop_def)

lemma for_loop_stop:
  "lookup (heap w) a = Some ob \<Longrightarrow> length (elems ob) \<le> i \<Longrightarrow>
   for_loop w a i = (Inl StopIteration, Finished, w)"
  by (simp add: for_loop_def)

lemma wrapper_next_running:
  "lookup (heap w) a = Some ob \<Longrightarrow> i < length (elems ob) \<Longrightarrow>
   wrapper_next (\<lparr>iterable = src, deepcopy = dc, state_counter = c, iter = Some (Running a i)\<rparr>, w) =
     (Inr (elems ob ! i),
      \<lparr>iterable = src, deepcopy = dc, state_counter = c + 1, iter = Some (Running a (Suc i))\<rparr>, w)"
  by (simp add: wrapper_next_def for_loop_yield)

lemma advance_running:
  "lookup (heap w) a = Some ob \<Longrightarrow> i + n \<le> length (elems ob) \<Longrightarrow>
   advance n (\<lparr>iterable = src, deepcopy = dc, state_counter = c, iter = Some (Running a i)\<rparr>, w) =
     (Inr (take n (drop i (elems ob))),
      \<lparr>iterable = src, deepcopy = dc, state_counter = c + int n, iter = Some (Running a (i + n))\<rparr>, w)"
proof (induction n arbitrary: i c)
  case 0
  then show ?case by simp
next
  case (Suc n)
  from Suc.prems have i: "i < length (elems ob)" and rest: "Suc i + n \<le> length (elems ob)"
    by simp_all
  have "take (Suc n) (drop i (elems ob)) = elems ob ! i # take n (drop (Suc i) (elems ob))"
    using i by (simp add: Cons_nth_drop_Suc [symmetric])
  then show ?case
    using Suc.IH [OF Suc.prems(1) rest, of "c + 1"] wrapper_next_running [OF Suc.prems(1) i]
    by (simp add: add.commute add.left_commute)
qed

lemma choose_source_ok:
  assumes "lookup (heap w) (iterable s) = Some ob"
    and "deepcopy s \<longrightarrow> dup ob = None \<or> dup ob = Some TypeError"
  shows "\<exists>a w'. choose_source s w = Inr (a, w') \<and> lookup (heap w') a = Some ob
           \<and> lookup (heap w') (iterable s) = Some ob"
  using assms
  by (auto simp: choose_source_def copy_deepcopy_def lookup_append_old lookup_append_new)


lemma wrapper_next_start:
  assumes it: "it = None \<or> it = Some Created"
    and cs: "choose_source \<lparr>iterable = src, deepcopy = dc, state_counter = c + 1, iter = Some Created\<rparr> w
               = Inr (a, w')"
  shows "wrapper_next (\<lparr>iterable = src, deepcopy = dc, state_counter = c, iter = it\<rparr>, w) =
         wrapper_next (\<lparr>iterable = src, deepcopy = dc, state_counter = c, iter = Some (Running a 0)\<rparr>, w')"
  using it cs by (auto simp: wrapper_next_def wrapper_iter_def)

lemma choose_source_fields:
  "iterable s = iterable s' \<Longrightarrow> deepcopy s = deepcopy s' \<Longrightarrow> choose_source s w = choose_source s' w"
  by (auto simp: choose_source_def split: sum.splits)

lemma advance_start:
  assumes it: "it = None \<or> it = Some Created"
    and cs: "choose_source \<lparr>iterable = src, deepcopy = dc, state_counter = c', iter = it'\<rparr> w = Inr (a, w')"
    and n: "0 < n"
  shows "advance n (\<lparr>iterable = src, deepcopy = dc, state_counter = c, iter = it\<rparr>, w) =
         advance n (\<lparr>iterable = src, deepcopy = dc, state_counter = c, iter = Some (Running a 0)\<rparr>, w')"
proof -
  obtain m where m: "n = Suc m" using n by (cases n) auto
  have "choose_source \<lparr>iterable = src, deepcopy = dc, state_counter = c + 1, iter = Some Created\<rparr> w
          = Inr (a, w')"
    using cs choose_source_fields [of "\<lparr>iterable = src, deepcopy = dc, state_counter = c + 1, iter = Some Created\<rparr>"
        "\<lparr>iterable = src, deepcopy = dc, state_counter = c', iter = it'\<rparr>" w]
    by simp
  from wrapper_next_start [OF it this] show ?thesis
    by (simp add: m)
qed

lemma restore_loop_advance:
  "restore_loop t (s, w) =
     (case advance (nat (t - state_counter s)) (s, w) of (r, sw') \<Rightarrow> (discard r, sw'))"
proof (induction t "(s, w)" arbitrary: s w rule: restore_loop.induct)
  case (1 t s w)
  show ?case
  proof (cases "state_counter s < t")
    case False
    then show ?thesis by (simp add: discard_def restore_loop.simps)
  next
    case True
    then have n: "nat (t - state_counter s) = Suc (nat (t - (state_counter s + 1)))"
      by simp
    obtain r s' w' where nx: "wrapper_next (s, w) = (r, s', w')"
      by (cases "wrapper_next (s, w)") auto
    then have c: "state_counter s' = state_counter s + 1"
      by (auto simp: wrapper_next_def Let_def split: prod.splits)
    show ?thesis
    proof (cases r)
      case (Inl e)
      with True nx n show ?thesis by (simp add: discard_def restore_loop.simps [of t s w])
    next
      case (Inr x)
      with True nx have "restore_loop t (s, w) = restore_loop t (s', w')"
        by (simp add: restore_loop.simps [of t s w])
      also have "\<dots> = (case advance (nat (t - state_counter s')) (s', w') of
                          (r, sw') \<Rightarrow> (discard r, sw'))"
        using "1" [OF True nx [symmetric, unfolded Inr]] by simp
      finally show ?thesis
        using nx Inr n c by (simp add: discard_def split: prod.splits sum.splits)
    qed
  qed
qed


lemma advance_fresh:
  assumes lk: "lookup (heap w) src = Some ob"
    and cp: "dc \<longrightarrow> dup ob = None \<or> dup ob = Some TypeError"
    and it: "it = None \<or> it = Some Created"
    and n: "0 < n" "n \<le> length (elems ob)"
  shows "\<exists>a w'. advance n (\<lparr>iterable = src, deepcopy = dc, state_counter = c, iter = it\<rparr>, w) =
           (Inr (take n (elems ob)),
            \<lparr>iterable = src, deepcopy = dc, state_counter = c + int n, iter = Some (Running a n)\<rparr>, w')
           \<and> lookup (heap w') a = Some ob \<and> lookup (heap w') src = Some ob"
proof -
  let ?s = "\<lparr>iterable = src, deepcopy = dc, state_counter = c, iter = it\<rparr>"
  from choose_source_ok [of w ?s ob] lk cp
  obtain a w' where cs: "choose_source ?s w = Inr (a, w')"
    and la: "lookup (heap w') a = Some ob" and ls: "lookup (heap w') src = Some ob"
    by auto
  have "advance n (?s, w) =
        advance n (\<lparr>iterable = src, deepcopy = dc, state_counter = c, iter = Some (Running a 0)\<rparr>, w')"
    by (rule advance_start [OF it cs n(1)])
  also have "\<dots> = (Inr (take n (drop 0 (elems ob))),
      \<lparr>iterable = src, deepcopy = dc, state_counter = c + int n, iter = Some (Running a (0 + n))\<rparr>, w')"
    by (rule advance_running [OF la]) (use n in simp)
  finally show ?thesis using la ls by auto
qed

lemma wrapper_next_fresh:
  assumes lk: "lookup (heap w) src = Some ob"
    and cp: "dc \<longrightarrow> dup ob = None \<or> dup ob = Some TypeError"
    and it: "it = None \<or> it = Some Created"
    and n: "0 < length (elems ob)"
  shows "fst (wrapper_next (\<lparr>iterable = src, deepcopy = dc, state_counter = c, iter = it\<rparr>, w))
         = Inr (elems ob ! 0)"
proof -
  let ?s = "\<lparr>iterable = src, deepcopy = dc, state_counter = c + 1, iter = Some Created\<rparr>"
  from choose_source_ok [of w ?s ob] lk cp
  obtain a w' where cs: "choose_source ?s w = Inr (a, w')"
    and la: "lookup (heap w') a = Some ob"
    by auto
  show ?thesis
    unfolding wrapper_next_start [OF it cs] wrapper_next_running [OF la n] by simp
qed


section \<open>Restoring progress\<close>

text \<open>
  C1 (amended). \<^verbatim>\<open>restore_snapshot(target_count)\<close> sets \<open>state_counter\<close> to 0, keeps the
  cursor the instance has (one is created only when there is none) and then calls
  \<^verbatim>\<open>__next__\<close> \<open>target_count\<close> times on it, dropping the elements; without an argument the
  target is the counter at the time of the call. So in the example with source
  \<open>[1,2,3,4,5]\<close>, after two \<^verbatim>\<open>__next__\<close> calls \<^verbatim>\<open>restore_snapshot()\<close> leaves the counter
  at 2 and the next \<^verbatim>\<open>__next__\<close> yields 5.
\<close>

theorem restore_snapshot_keeps_cursor:
  "restore_snapshot (Some t) (s, w) =
     (case advance (nat t) (s\<lparr>state_counter := 0\<rparr>, w) of (r, sw') \<Rightarrow> (discard r, sw'))
   \<and> restore_snapshot None (s, w) = restore_snapshot (Some (state_counter s)) (s, w)
   \<and> iter (s\<lparr>state_counter := 0\<rparr>) = iter s
   \<and> state_counter (fst (snd (restore_snapshot None (snd (advance 2 (wrapper_init 0 True,
         \<lparr>heap = [\<lparr>elems = [1, 2, 3, 4, 5 :: int], dup = None, sized = True\<rparr>], warnings = []\<rparr>)))))) = 2
   \<and> fst (wrapper_next (snd (restore_snapshot None (snd (advance 2 (wrapper_init 0 True,
         \<lparr>heap = [\<lparr>elems = [1, 2, 3, 4, 5 :: int], dup = None, sized = True\<rparr>], warnings = []\<rparr>)))))) = Inr 5"
proof (intro conjI)
  show "restore_snapshot (Some t) (s, w) =
     (case advance (nat t) (s\<lparr>state_counter := 0\<rparr>, w) of (r, sw') \<Rightarrow> (discard r, sw'))"
    by (simp add: restore_snapshot_def restore_loop_advance)
  show "restore_snapshot None (s, w) = restore_snapshot (Some (state_counter s)) (s, w)"
    by (simp add: restore_snapshot_def)
  show "iter (s\<lparr>state_counter := 0\<rparr>) = iter s"
    by simp
  show "state_counter (fst (snd (restore_snapshot None (snd (advance 2 (wrapper_init 0 True,
         \<lparr>heap = [\<lparr>elems = [1, 2, 3, 4, 5 :: int], dup = None, sized = True\<rparr>], warnings = []\<rparr>)))))) = 2"
    by code_simp
  show "fst (wrapper_next (snd (restore_snapshot None (snd (advance 2 (wrapper_init 0 True,
         \<lparr>heap = [\<lparr>elems = [1, 2, 3, 4, 5 :: int], dup = None, sized = True\<rparr>], warnings = []\<rparr>)))))) = Inr 5"
    by code_simp
qed

text \<open>
  C1 as stated fails: in its own example the two \<^verbatim>\<open>__next__\<close> calls yield 1 and 2, and
  after \<^verbatim>\<open>restore_snapshot()\<close> the next \<^verbatim>\<open>__next__\<close> does not yield 3, because the cursor
  was not discarded.
\<close>

theorem restore_snapshot_example_counterexample:
  "fst (advance 2 (wrapper_init 0 True, \<lparr>heap = [\<lparr>elems = [1, 2, 3, 4, 5 :: int], dup = None, sized = True\<rparr>], warnings = []\<rparr>)) = Inr [1, 2]
   \<and> fst (wrapper_next (snd (restore_snapshot None (snd (advance 2 (wrapper_init 0 True,
         \<lparr>heap = [\<lparr>elems = [1, 2, 3, 4, 5 :: int], dup = None, sized = True\<rparr>], warnings = []\<rparr>)))))) \<noteq> Inr 3"
  by code_simp

text \<open>
  C2 at the failing input: over the source \<open>[1]\<close> the first \<^verbatim>\<open>__next__\<close> yields 1, the second
  raises \<^verbatim>\<open>StopIteration\<close>, and \<open>state_counter\<close> is then 2 although one element was
  produced.
\<close>

theorem next_counts_exhausted_call:
  "fst (wrapper_next (wrapper_init 0 True, \<lparr>heap = [\<lparr>elems = [1 :: int], dup = None, sized = True\<rparr>], warnings = []\<rparr>)) = Inr 1
   \<and> fst (wrapper_next (snd (wrapper_next (wrapper_init 0 True, \<lparr>heap = [\<lparr>elems = [1 :: int], dup = None, sized = True\<rparr>], warnings = []\<rparr>)))) = Inl StopIteration
   \<and> state_counter (fst (snd (wrapper_next (snd (wrapper_next (wrapper_init 0 True, \<lparr>heap = [\<lparr>elems = [1 :: int], dup = None, sized = True\<rparr>], warnings = []\<rparr>)))))) = 2"
  by code_simp

text \<open>
  C3 (amended). For a source of more than \<open>k\<close> elements, \<open>k \<ge> 0\<close>, whose copy succeeds or
  fails with \<^verbatim>\<open>TypeError\<close> when \<open>deepcopy\<close> is set, \<^verbatim>\<open>restore_snapshot(k)\<close> on a fresh
  instance leaves the cursor after the first \<open>k\<close> elements: the next \<^verbatim>\<open>__next__\<close> returns
  element \<open>k\<close> of the source.
\<close>

theorem restore_snapshot_fresh_position:
  assumes lk: "lookup (heap w) src = Some ob"
    and cp: "dc \<longrightarrow> dup ob = None \<or> dup ob = Some TypeError"
    and k: "0 \<le> k" "nat k < length (elems ob)"
  shows "fst (wrapper_next (snd (restore_snapshot (Some k) (wrapper_init src dc, w))))
         = Inr (elems ob ! nat k)"
proof (cases "nat k = 0")
  case True
  then have "restore_snapshot (Some k) (wrapper_init src dc, w) = (Inr (), wrapper_init src dc, w)"
    by (simp add: restore_snapshot_def restore_loop_advance wrapper_init_def discard_def)
  then show ?thesis
    using wrapper_next_fresh [OF lk cp, of None 0] k True by (simp add: wrapper_init_def)
next
  case False
  then have pos: "0 < nat k" by simp
  from advance_fresh [OF lk cp _ pos, of None 0] k
  obtain a w' where adv: "advance (nat k) (\<lparr>iterable = src, deepcopy = dc, state_counter = 0, iter = None\<rparr>, w) =
           (Inr (take (nat k) (elems ob)),
            \<lparr>iterable = src, deepcopy = dc, state_counter = 0 + int (nat k), iter = Some (Running a (nat k))\<rparr>, w')"
    and la: "lookup (heap w') a = Some ob"
    by auto
  have "restore_snapshot (Some k) (wrapper_init src dc, w) =
        (Inr (), \<lparr>iterable = src, deepcopy = dc, state_counter = 0 + int (nat k), iter = Some (Running a (nat k))\<rparr>, w')"
    using adv by (simp add: restore_snapshot_def restore_loop_advance wrapper_init_def discard_def)
  then show ?thesis
    using wrapper_next_running [OF la k(2)] by simp
qed


text \<open>C3 (amended) at the source \<open>[1,2,3,4,5]\<close> with \<open>k = 2\<close>.\<close>

theorem restore_snapshot_fresh_position_witness:
  "lookup (heap \<lparr>heap = [\<lparr>elems = [1, 2, 3, 4, 5 :: int], dup = None, sized = True\<rparr>], warnings = []\<rparr>) 0 = Some \<lparr>elems = [1, 2, 3, 4, 5 :: int], dup = None, sized = True\<rparr>
   \<and> (0::int) \<le> 2
   \<and> nat 2 < length (elems \<lparr>elems = [1, 2, 3, 4, 5 :: int], dup = None, sized = True\<rparr>)
   \<and> fst (wrapper_next (snd (restore_snapshot (Some 2) (wrapper_init 0 True, \<lparr>heap = [\<lparr>elems = [1, 2, 3, 4, 5 :: int], dup = None, sized = True\<rparr>], warnings = []\<rparr>)))) = Inr 3"
  using restore_snapshot_fresh_position [of "\<lparr>heap = [\<lparr>elems = [1, 2, 3, 4, 5 :: int], dup = None, sized = True\<rparr>], warnings = []\<rparr>" 0
      "\<lparr>elems = [1, 2, 3, 4, 5 :: int], dup = None, sized = True\<rparr>" True 2]
  by (simp add: lookup_def)

text \<open>
  C3 as stated fails for a source of exactly \<open>k\<close> elements: over \<open>[7]\<close>, after
  \<^verbatim>\<open>restore_snapshot(1)\<close> on a fresh instance the next \<^verbatim>\<open>__next__\<close> raises \<^verbatim>\<open>StopIteration\<close>.
\<close>

theorem restore_snapshot_at_end_counterexample:
  "int (length [7 :: int]) \<ge> 1
   \<and> fst (wrapper_next (snd (restore_snapshot (Some 1) (wrapper_init 0 True,
        \<lparr>heap = [\<lparr>elems = [7 :: int], dup = None, sized = True\<rparr>], warnings = []\<rparr>))))
      = Inl StopIteration"
  by code_simp

section \<open>Saving progress\<close>

text \<open>
  C8. On a fresh instance over a source with at least \<open>k\<close> elements, \<open>k\<close> calls of
  \<^verbatim>\<open>__next__\<close> succeed and produce the first \<open>k\<close> elements, and \<^verbatim>\<open>save_snapshot\<close> then
  returns \<open>k\<close> and leaves the instance and the store as they are.
\<close>

theorem save_snapshot_counts:
  assumes lk: "lookup (heap w) src = Some ob"
    and cp: "dc \<longrightarrow> dup ob = None \<or> dup ob = Some TypeError"
    and k: "k \<le> length (elems ob)"
  shows "(case advance k (wrapper_init src dc, w) of
            (r, sw) \<Rightarrow> r = Inr (take k (elems ob)) \<and> save_snapshot sw = (int k, sw))"
proof (cases "k = 0")
  case True
  then show ?thesis by (simp add: save_snapshot_def wrapper_init_def)
next
  case False
  then have pos: "0 < k" by simp
  from advance_fresh [OF lk cp _ pos k, of None 0]
  show ?thesis by (auto simp: wrapper_init_def save_snapshot_def)
qed


text \<open>C8 at the source \<open>[1,2,3,4,5]\<close> with \<open>k = 2\<close>.\<close>

theorem save_snapshot_counts_witness:
  "lookup (heap \<lparr>heap = [\<lparr>elems = [1, 2, 3, 4, 5 :: int], dup = None, sized = True\<rparr>], warnings = []\<rparr>) 0 = Some \<lparr>elems = [1, 2, 3, 4, 5 :: int], dup = None, sized = True\<rparr>
   \<and> (2::nat) \<le> length (elems \<lparr>elems = [1, 2, 3, 4, 5 :: int], dup = None, sized = True\<rparr>)
   \<and> fst (advance 2 (wrapper_init 0 True, \<lparr>heap = [\<lparr>elems = [1, 2, 3, 4, 5 :: int], dup = None, sized = True\<rparr>], warnings = []\<rparr>)) = Inr [1, 2]
   \<and> fst (save_snapshot (snd (advance 2 (wrapper_init 0 True, \<lparr>heap = [\<lparr>elems = [1, 2, 3, 4, 5 :: int], dup = None, sized = True\<rparr>], warnings = []\<rparr>)))) = 2"
  using save_snapshot_counts [of "\<lparr>heap = [\<lparr>elems = [1, 2, 3, 4, 5 :: int], dup = None, sized = True\<rparr>], warnings = []\<rparr>" 0
      "\<lparr>elems = [1, 2, 3, 4, 5 :: int], dup = None, sized = True\<rparr>" True 2]
  by (simp add: lookup_def split: prod.splits)


section \<open>Extracting and installing state\<close>

lemma wrapper_next_iter: "iter (fst (snd (wrapper_next sw))) \<noteq> None"
  by (cases sw) (simp add: wrapper_next_def Let_def split: prod.splits)

lemma restore_loop_iter:
  "iter s \<noteq> None \<Longrightarrow> iter (fst (snd (restore_loop t (s, w)))) \<noteq> None"
proof (induction t "(s, w)" arbitrary: s w rule: restore_loop.induct)
  case (1 t s w)
  show ?case
  proof (cases "state_counter s < t")
    case False
    with "1.prems" show ?thesis by (simp add: restore_loop.simps [of t s w])
  next
    case True
    obtain r s' w' where nx: "wrapper_next (s, w) = (r, s', w')"
      by (cases "wrapper_next (s, w)") auto
    have it: "iter s' \<noteq> None"
      using wrapper_next_iter [of "(s, w)"] nx by simp
    show ?thesis
    proof (cases r)
      case (Inl e)
      with True nx it show ?thesis by (simp add: restore_loop.simps [of t s w])
    next
      case (Inr x)
      from "1.hyps" [OF True nx [symmetric, unfolded Inr] refl refl it]
      show ?thesis using True nx Inr by (simp add: restore_loop.simps [of t s w])
    qed
  qed
qed

lemma exec_iter: "iter (fst sw) \<noteq> None \<Longrightarrow> iter (fst (exec x sw)) \<noteq> None"
proof (cases x)
  case Next
  then show ?thesis using wrapper_next_iter [of sw] by simp
next
  case (Restore_snapshot t)
  assume "iter (fst sw) \<noteq> None"
  then show ?thesis unfolding Restore_snapshot
    by (cases sw) (simp add: restore_snapshot_def restore_loop_iter)
next
  case (Setstate st)
  then show ?thesis by (cases sw) (simp add: wrapper_setstate_def)
qed (auto simp: save_snapshot_def split: prod.splits)

lemma run_iter: "iter (fst sw) \<noteq> None \<Longrightarrow> iter (fst (run ops sw)) \<noteq> None"
proof (induction ops arbitrary: sw)
  case Nil
  then show ?case by (simp add: run_def)
next
  case (Cons x xs)
  from Cons.IH [OF exec_iter [OF Cons.prems, of x]] show ?case
    by (simp add: run_def)
qed


text \<open>
  C4. \<^verbatim>\<open>__getstate__\<close> raises exactly when \<open>iter\<close> is set; it raises after a \<^verbatim>\<open>__next__\<close>
  call whatever is called afterwards; with no cursor it returns the fields \<open>iterable\<close>,
  \<open>deepcopy\<close> and \<open>state_counter\<close> of the instance and nothing else.
\<close>

theorem getstate_fails_iff_cursor:
  "(wrapper_getstate s = Inl (Exception '''') \<longleftrightarrow> iter s \<noteq> None)
   \<and> (isl (wrapper_getstate s) \<longleftrightarrow> iter s \<noteq> None)
   \<and> wrapper_getstate (fst (run ops (snd (wrapper_next (s, w))))) = Inl (Exception '''')
   \<and> (iter s = None \<longrightarrow>
        wrapper_getstate s =
          Inr \<lparr>iterable = iterable s, deepcopy = deepcopy s, state_counter = state_counter s\<rparr>)"
  using run_iter [OF wrapper_next_iter, of ops "(s, w)"]
  by (simp add: wrapper_getstate_def)


text \<open>C4 on a fresh instance over \<open>[1,2,3,4,5]\<close>, before and after one \<^verbatim>\<open>__next__\<close>.\<close>

theorem getstate_fails_iff_cursor_witness:
  "iter (wrapper_init 0 True) = None
   \<and> wrapper_getstate (wrapper_init 0 True)
       = Inr \<lparr>iterable = 0, deepcopy = True, state_counter = 0\<rparr>
   \<and> wrapper_getstate (fst (run [Save_snapshot] (snd (wrapper_next (wrapper_init 0 True,
         \<lparr>heap = [\<lparr>elems = [1, 2, 3, 4, 5 :: int], dup = None, sized = True\<rparr>], warnings = []\<rparr>))))) = Inl (Exception '''')"
  using getstate_fails_iff_cursor [of "wrapper_init 0 True" "[Save_snapshot]" "\<lparr>heap = [\<lparr>elems = [1, 2, 3, 4, 5 :: int], dup = None, sized = True\<rparr>], warnings = []\<rparr>"]
  by (simp add: wrapper_init_def)

text \<open>
  C5. \<^verbatim>\<open>__setstate__\<close> takes every field from the state it is given and sets \<open>iter\<close> at
  once to a generator of \<^verbatim>\<open>__iter__\<close> whose body has not run yet, while \<^verbatim>\<open>__init__\<close> leaves
  \<open>iter\<close> unset. The cursor is live: over a source that holds an element (and whose copy
  succeeds or raises \<^verbatim>\<open>TypeError\<close> when \<open>deepcopy\<close> is set) the next \<^verbatim>\<open>__next__\<close> yields the
  first element.
\<close>

theorem setstate_creates_cursor:
  "iterable (wrapper_setstate st) = iterable st
   \<and> deepcopy (wrapper_setstate st) = deepcopy st
   \<and> state_counter (wrapper_setstate st) = state_counter st
   \<and> iter (wrapper_setstate st) = Some (wrapper_iter (wrapper_setstate st))
   \<and> iter (wrapper_setstate st) = Some Created
   \<and> iter (wrapper_setstate st) \<noteq> None
   \<and> iter (wrapper_init src dc) = None
   \<and> (lookup (heap w) (iterable st) = Some ob
        \<and> (deepcopy st \<longrightarrow> dup ob = None \<or> dup ob = Some TypeError)
        \<and> 0 < length (elems ob)
        \<longrightarrow> fst (wrapper_next (wrapper_setstate st, w)) = Inr (elems ob ! 0))"
proof -
  have fields: "iterable (wrapper_setstate st) = iterable st
     \<and> deepcopy (wrapper_setstate st) = deepcopy st
     \<and> state_counter (wrapper_setstate st) = state_counter st
     \<and> iter (wrapper_setstate st) = Some (wrapper_iter (wrapper_setstate st))
     \<and> iter (wrapper_setstate st) = Some Created
     \<and> iter (wrapper_setstate st) \<noteq> None
     \<and> iter (wrapper_init src dc) = None"
    by (simp add: wrapper_setstate_def wrapper_init_def wrapper_iter_def)
  have live: "fst (wrapper_next (wrapper_setstate st, w)) = Inr (elems ob ! 0)"
    if lk: "lookup (heap w) (iterable st) = Some ob"
      and cp: "deepcopy st \<longrightarrow> dup ob = None \<or> dup ob = Some TypeError"
      and n: "0 < length (elems ob)"
  proof -
    have "wrapper_setstate st =
          \<lparr>iterable = iterable st, deepcopy = deepcopy st,
           state_counter = state_counter st, iter = Some Created\<rparr>"
      by (simp add: wrapper_setstate_def wrapper_iter_def)
    with wrapper_next_fresh [OF lk cp _ n, of "Some Created" "state_counter st"]
    show ?thesis by simp
  qed
  from fields live show ?thesis by blast
qed

text \<open>
  C5 for the state extracted from a fresh instance over \<open>[1,2,3,4,5]\<close>: after
  \<^verbatim>\<open>__setstate__\<close> the cursor is there and the next \<^verbatim>\<open>__next__\<close> yields 1.
\<close>

theorem setstate_creates_cursor_witness:
  "wrapper_getstate (wrapper_init 0 True)
     = Inr \<lparr>iterable = 0, deepcopy = True, state_counter = 0\<rparr>
   \<and> lookup (heap \<lparr>heap = [\<lparr>elems = [1, 2, 3, 4, 5 :: int], dup = None, sized = True\<rparr>], warnings = []\<rparr>) (iterable \<lparr>iterable = 0, deepcopy = True, state_counter = 0\<rparr>)
       = Some \<lparr>elems = [1, 2, 3, 4, 5 :: int], dup = None, sized = True\<rparr>
   \<and> 0 < length (elems \<lparr>elems = [1, 2, 3, 4, 5 :: int], dup = None, sized = True\<rparr>)
   \<and> iter (wrapper_setstate \<lparr>iterable = 0, deepcopy = True, state_counter = 0\<rparr>) = Some Created
   \<and> fst (wrapper_next (wrapper_setstate \<lparr>iterable = 0, deepcopy = True, state_counter = 0\<rparr>,
        \<lparr>heap = [\<lparr>elems = [1, 2, 3, 4, 5 :: int], dup = None, sized = True\<rparr>], warnings = []\<rparr>)) = Inr 1"
  using setstate_creates_cursor [where st = "\<lparr>iterable = 0, deepcopy = True, state_counter = 0\<rparr>"
      and w = "\<lparr>heap = [\<lparr>elems = [1, 2, 3, 4, 5 :: int], dup = None, sized = True\<rparr>], warnings = []\<rparr>" and ob = "\<lparr>elems = [1, 2, 3, 4, 5 :: int], dup = None, sized = True\<rparr>"]
  by (simp add: lookup_def wrapper_getstate_def wrapper_init_def wrapper_iter_def)

text \<open>
  C10. After \<^verbatim>\<open>__setstate__\<close>, \<^verbatim>\<open>__getstate__\<close> raises, whatever operations were called in
  between: none of them unsets \<open>iter\<close>.
\<close>

theorem getstate_fails_after_setstate:
  "wrapper_getstate (fst (run ops (wrapper_setstate st, w))) = Inl (Exception '''')"
  using run_iter [of "(wrapper_setstate st, w)" ops]
  by (simp add: wrapper_getstate_def wrapper_setstate_def)



section \<open>Length\<close>

lemma gen_next_lookup:
  "gen_next s w g = (r, g', w') \<Longrightarrow> lookup (heap w) a = Some ob \<Longrightarrow> lookup (heap w') a = Some ob"
  by (cases g)
     (auto simp: for_loop_def choose_source_def copy_deepcopy_def lookup_append_old
           split: sum.splits option.splits if_splits prod.splits)

lemma wrapper_next_keeps:
  assumes "wrapper_next (s, w) = (r, s', w')"
  shows "iterable s' = iterable s" and "deepcopy s' = deepcopy s"
    and "lookup (heap w) a = Some ob \<Longrightarrow> lookup (heap w') a = Some ob"
  using assms
  by (auto simp: wrapper_next_def Let_def split: prod.splits dest: gen_next_lookup)

lemma advance_keeps:
  "advance n (s, w) = (r, s', w') \<Longrightarrow> lookup (heap w) a = Some ob \<Longrightarrow>
   iterable s' = iterable s \<and> deepcopy s' = deepcopy s \<and> lookup (heap w') a = Some ob"
proof (induction n arbitrary: s w r s' w')
  case 0
  then show ?case by simp
next
  case (Suc n)
  obtain r1 s1 w1 where nx: "wrapper_next (s, w) = (r1, s1, w1)"
    by (cases "wrapper_next (s, w)") auto
  note k = wrapper_next_keeps [OF nx] wrapper_next_keeps(3) [OF nx Suc.prems(2)]
  show ?case
  proof (cases r1)
    case (Inl e)
    with Suc.prems nx k show ?thesis by auto
  next
    case (Inr x)
    obtain r2 s2 w2 where ad: "advance n (s1, w1) = (r2, s2, w2)"
      by (cases "advance n (s1, w1)") auto
    from Suc.IH [OF ad k(4)] k Suc.prems nx Inr ad show ?thesis
      by (auto split: sum.splits)
  qed
qed


text \<open>
  C9. \<^verbatim>\<open>__len__\<close> returns the length of the wrapped object when that object has a length
  and raises \<^verbatim>\<open>TypeError\<close> otherwise, for either value of \<open>deepcopy\<close> and after any number
  of \<^verbatim>\<open>__next__\<close> calls.
\<close>

theorem len_is_source_length:
  assumes "lookup (heap w) (iterable s) = Some ob"
  shows "wrapper_len (snd (advance n (s, w))) =
           (if sized ob then Inr (length (elems ob)) else Inl TypeError)"
proof -
  obtain r s' w' where ad: "advance n (s, w) = (r, s', w')"
    by (cases "advance n (s, w)") auto
  from advance_keeps [OF ad assms] show ?thesis
    by (simp add: ad wrapper_len_def)
qed


text \<open>C9 over \<open>[1,2,3,4,5]\<close> after three \<^verbatim>\<open>__next__\<close> calls.\<close>

theorem len_is_source_length_witness:
  "lookup (heap \<lparr>heap = [\<lparr>elems = [1, 2, 3, 4, 5 :: int], dup = None, sized = True\<rparr>], warnings = []\<rparr>) (iterable (wrapper_init 0 True)) = Some \<lparr>elems = [1, 2, 3, 4, 5 :: int], dup = None, sized = True\<rparr>
   \<and> wrapper_len (snd (advance 3 (wrapper_init 0 True, \<lparr>heap = [\<lparr>elems = [1, 2, 3, 4, 5 :: int], dup = None, sized = True\<rparr>], warnings = []\<rparr>))) = Inr 5"
  using len_is_source_length [of "\<lparr>heap = [\<lparr>elems = [1, 2, 3, 4, 5 :: int], dup = None, sized = True\<rparr>], warnings = []\<rparr>" "wrapper_init 0 True" "\<lparr>elems = [1, 2, 3, 4, 5 :: int], dup = None, sized = True\<rparr>" 3]
  by (simp add: lookup_def wrapper_init_def)

section \<open>Traversals and the copy\<close>

lemma caller_assign_other:
  "a \<noteq> b \<Longrightarrow> lookup (heap (caller_assign b xs w)) a = lookup (heap w) a"
  by (simp add: caller_assign_def lookup_def)

lemma traverse_private:
  assumes "lookup (heap w) a = Some ob" and "a \<noteq> iterable s"
    and "i \<le> length (elems ob)" and "length (elems ob) - i < length ms"
  shows "fst (traverse s ms (Running a i) w) = drop i (elems ob)
         \<and> fst (snd (traverse s ms (Running a i) w)) = Some StopIteration"
  using assms
proof (induction ms arbitrary: i w)
  case Nil
  then show ?case by simp
next
  case (Cons m ms)
  let ?w1 = "case m of None \<Rightarrow> w | Some xs \<Rightarrow> caller_assign (iterable s) xs w"
  have lk: "lookup (heap ?w1) a = Some ob"
    using Cons.prems(1,2) by (simp add: caller_assign_other split: option.splits)
  show ?case
  proof (cases "i < length (elems ob)")
    case True
    from Cons.prems True have "length (elems ob) - Suc i < length ms" by simp
    from Cons.IH [OF lk Cons.prems(2) _ this] True
    show ?thesis
      by (auto simp: for_loop_yield [OF lk True] Cons_nth_drop_Suc split: prod.splits)
  next
    case False
    then show ?thesis
      using Cons.prems(3) by (simp add: for_loop_stop [OF lk])
  qed
qed

lemma traverse_quiet:
  assumes "lookup (heap w) a = Some ob"
    and "i \<le> length (elems ob)" and "length (elems ob) - i < n"
  shows "traverse s (replicate n None) (Running a i) w
         = (drop i (elems ob), Some StopIteration, Finished, w)"
  using assms
proof (induction n arbitrary: i)
  case 0
  then show ?case by simp
next
  case (Suc n)
  show ?case
  proof (cases "i < length (elems ob)")
    case True
    from Suc.prems True have "length (elems ob) - Suc i < n" by simp
    from Suc.IH [OF Suc.prems(1) _ this] True
    show ?thesis
      by (simp add: for_loop_yield [OF Suc.prems(1) True] Cons_nth_drop_Suc)
  next
    case False
    then show ?thesis
      using Suc.prems(2) by (simp add: for_loop_stop [OF Suc.prems(1)])
  qed
qed

lemma traverse_created:
  assumes "choose_source s (case m of None \<Rightarrow> w | Some xs \<Rightarrow> caller_assign (iterable s) xs w)
             = Inr (a, w')"
  shows "traverse s (m # ms) Created w = traverse s (None # ms) (Running a 0) w'"
  using assms by simp


text \<open>
  C6 (amended). With \<open>deepcopy\<close> set and a source that can be copied, a full traversal
  of a generator of \<^verbatim>\<open>__iter__\<close> yields, in order, the elements the source holds when the
  first element of that traversal is requested, whatever the caller assigns to the
  source later during the traversal.
\<close>

theorem traversal_yields_contents_at_first_request:
  assumes dc: "deepcopy s"
    and lk: "lookup (heap (case m of None \<Rightarrow> w | Some xs \<Rightarrow> caller_assign (iterable s) xs w))
               (iterable s) = Some ob"
    and cp: "dup ob = None"
    and len: "length (elems ob) \<le> length ms"
  shows "fst (traverse s (m # ms) Created w) = elems ob
         \<and> fst (snd (traverse s (m # ms) Created w)) = Some StopIteration"
proof -
  let ?w1 = "case m of None \<Rightarrow> w | Some xs \<Rightarrow> caller_assign (iterable s) xs w"
  let ?a = "length (heap ?w1)"
  let ?w' = "?w1\<lparr>heap := heap ?w1 @ [ob]\<rparr>"
  have cs: "choose_source s ?w1 = Inr (?a, ?w')"
    using dc lk cp by (simp add: choose_source_def copy_deepcopy_def)
  have la: "lookup (heap ?w') ?a = Some ob"
    by (simp add: lookup_append_new)
  have ne: "?a \<noteq> iterable s"
    using lk by (auto simp: lookup_def split: if_splits)
  have "length (elems ob) - 0 < length (None # ms)"
    using len by simp
  from traverse_private [OF la ne _ this]
  show ?thesis
    unfolding traverse_created [OF cs] by simp
qed


text \<open>
  C6 (amended) where the caller fills the source with \<open>[1,2]\<close> before the first request
  and overwrites it with \<open>[9]\<close> before the second.
\<close>

theorem traversal_yields_contents_at_first_request_witness:
  "deepcopy (wrapper_init 0 True)
   \<and> lookup (heap (caller_assign 0 [1, 2]
         \<lparr>heap = [\<lparr>elems = [0 :: int], dup = None, sized = True\<rparr>], warnings = []\<rparr>)) 0
       = Some \<lparr>elems = [1, 2], dup = None, sized = True\<rparr>
   \<and> fst (traverse (wrapper_init 0 True) [Some [1, 2], Some [9], None, None] Created
         \<lparr>heap = [\<lparr>elems = [0 :: int], dup = None, sized = True\<rparr>], warnings = []\<rparr>) = [1, 2]"
  using traversal_yields_contents_at_first_request [where s = "wrapper_init 0 True"
      and m = "Some [1, 2]"
      and w = "\<lparr>heap = [\<lparr>elems = [0 :: int], dup = None, sized = True\<rparr>], warnings = []\<rparr>"
      and ob = "\<lparr>elems = [1, 2], dup = None, sized = True\<rparr>"
      and ms = "[Some [9], None, None]"]
  by (simp add: wrapper_init_def caller_assign_def lookup_def)

text \<open>
  C6 as stated fails: over \<open>[1,2]\<close> with \<open>deepcopy\<close> set the first full traversal yields
  \<open>[1,2]\<close>; the caller then assigns \<open>[9]\<close> to the source, and the second full traversal
  yields \<open>[9]\<close>.
\<close>

theorem mutation_between_traversals_counterexample:
  "traverse (wrapper_init 0 True) [None, None, None] Created \<lparr>heap = [\<lparr>elems = [1, 2 :: int], dup = None, sized = True\<rparr>], warnings = []\<rparr>
     = ([1, 2], Some StopIteration, Finished,
        \<lparr>heap = [\<lparr>elems = [1, 2], dup = None, sized = True\<rparr>,
                 \<lparr>elems = [1, 2], dup = None, sized = True\<rparr>], warnings = []\<rparr>)
   \<and> fst (traverse (wrapper_init 0 True) [Some [9], None, None] Created
        \<lparr>heap = [\<lparr>elems = [1, 2 :: int], dup = None, sized = True\<rparr>,
                 \<lparr>elems = [1, 2], dup = None, sized = True\<rparr>], warnings = []\<rparr>) = [9]"
  by code_simp

text \<open>
  C7 (amended). With \<open>deepcopy\<close> set and a source whose copy raises \<^verbatim>\<open>TypeError\<close>, the
  generator of \<^verbatim>\<open>__iter__\<close> records the warning and loops over the source itself: a full
  traversal yields its elements in order and ends with \<^verbatim>\<open>StopIteration\<close>.
\<close>

theorem uncopyable_source_iterated_directly:
  assumes dc: "deepcopy s"
    and lk: "lookup (heap w) (iterable s) = Some ob"
    and cp: "dup ob = Some TypeError"
    and n: "length (elems ob) < n"
  shows "gen_next s w Created =
           for_loop (w\<lparr>warnings := warnings w @ [deepcopy_warning]\<rparr>) (iterable s) 0
         \<and> traverse s (replicate n None) Created w =
           (elems ob, Some StopIteration, Finished, w\<lparr>warnings := warnings w @ [deepcopy_warning]\<rparr>)"
proof -
  let ?w' = "w\<lparr>warnings := warnings w @ [deepcopy_warning]\<rparr>"
  have cs: "choose_source s w = Inr (iterable s, ?w')"
    using dc lk cp by (simp add: choose_source_def copy_deepcopy_def)
  obtain k where k: "n = Suc k" using n by (cases n) auto
  have lk': "lookup (heap ?w') (iterable s) = Some ob"
    using lk by simp
  have "traverse s (replicate n None) Created w = traverse s (None # replicate k None) (Running (iterable s) 0) ?w'"
    unfolding k replicate_Suc by (rule traverse_created) (simp add: cs)
  also have "\<dots> = traverse s (replicate n None) (Running (iterable s) 0) ?w'"
    by (simp add: k)
  also have "\<dots> = (drop 0 (elems ob), Some StopIteration, Finished, ?w')"
    by (rule traverse_quiet [OF lk']) (use n in simp_all)
  finally show ?thesis using cs by simp
qed


text \<open>C7 (amended) over an unsized, uncopyable source holding 1 and 2.\<close>

theorem uncopyable_source_iterated_directly_witness:
  "deepcopy (wrapper_init 0 True)
   \<and> lookup [\<lparr>elems = [1, 2 :: int], dup = Some TypeError, sized = False\<rparr>] 0
       = Some \<lparr>elems = [1, 2], dup = Some TypeError, sized = False\<rparr>
   \<and> traverse (wrapper_init 0 True) [None, None, None] Created
        \<lparr>heap = [\<lparr>elems = [1, 2 :: int], dup = Some TypeError, sized = False\<rparr>], warnings = []\<rparr>
      = ([1, 2], Some StopIteration, Finished,
         \<lparr>heap = [\<lparr>elems = [1, 2], dup = Some TypeError, sized = False\<rparr>],
          warnings = [deepcopy_warning]\<rparr>)"
  using uncopyable_source_iterated_directly [where s = "wrapper_init 0 True"
      and w = "\<lparr>heap = [\<lparr>elems = [1, 2 :: int], dup = Some TypeError, sized = False\<rparr>], warnings = []\<rparr>"
      and ob = "\<lparr>elems = [1, 2], dup = Some TypeError, sized = False\<rparr>" and n = 3]
  by (simp add: wrapper_init_def lookup_def eval_nat_numeral)

text \<open>
  C7 as stated fails for a source whose copy raises another exception than
  \<^verbatim>\<open>TypeError\<close>: the exception leaves the generator at the first request, no warning is
  recorded and no element is yielded.
\<close>

theorem other_copy_failure_counterexample:
  "traverse (wrapper_init 0 True) [None, None, None] Created
     \<lparr>heap = [\<lparr>elems = [1, 2 :: int], dup = Some (Raised ''copy.Error''), sized = True\<rparr>],
      warnings = []\<rparr>
   = ([], Some (Raised ''copy.Error''), Finished,
      \<lparr>heap = [\<lparr>elems = [1, 2], dup = Some (Raised ''copy.Error''), sized = True\<rparr>],
       warnings = []\<rparr>)"
  by code_simp

end
